theory Spec2Isabelle
  imports Complex_Main
begin

section \<open>Data model\<close>

text \<open>
  The scripts work on a pandas table of hourly price bars indexed by time stamp.
  A row of the table is a record; the table is the list of its rows, in the order of
  the table. Only the columns the analysis reads are kept (\<open>Open\<close>, \<open>Close\<close>).
  Prices are binary64 floating-point numbers in the scripts. The loops are modelled
  twice. For what is counted, and over which days, prices are ideal reals; the one
  non-number the scripts can produce themselves there, numpy's \<open>nan\<close> for the mean or
  the standard deviation of an empty sample, is \<open>None\<close> of a \<open>real option\<close>. For the
  crossing test itself the body of the day loop is also given in the arithmetic of the
  machine (\<open>trial_day_double\<close>), where the sum and the product round.

  A time stamp is the pair of its calendar date (what \<open>data.index.date\<close> reads, as a
  day number) and the time within that day.
\<close>

record timestamp =
  date :: nat
  time :: nat

definition ts_less :: "timestamp \<Rightarrow> timestamp \<Rightarrow> bool" where
  "ts_less a b \<longleftrightarrow> date a < date b \<or> (date a = date b \<and> time a < time b)"

record bar =
  timestamp :: timestamp
  Open :: real
  Close :: real

text \<open>The table after \<open>data['Date'] = data.index.date\<close>: every row has one more column.\<close>

record dated_bar = bar +
  Date :: nat

text \<open>The exceptions the modelled statements can raise.\<close>

datatype error = ZeroDivisionError | IndexError | ValueError | Exception string

section \<open>Library functions the scripts call\<close>

text \<open>\<open>series.iloc[i]\<close> for a non-negative position: IndexError out of range.\<close>

definition iloc :: "'a list \<Rightarrow> nat \<Rightarrow> error + 'a" where
  "iloc xs i = (if i < length xs then Inr (xs ! i) else Inl IndexError)"

text \<open>
  \<open>np.random.randint(low, high)\<close> reads numpy's global generator. The generator is a
  tape of raw values \<open>draws\<close> and the state is the position \<open>pos\<close> on the tape; a call
  consumes one raw value and returns a number of the half-open range, every number of
  the range being reachable. numpy raises ValueError when the range is empty.
\<close>

definition randint :: "(nat \<Rightarrow> nat) \<Rightarrow> nat \<Rightarrow> nat \<Rightarrow> nat \<Rightarrow> error + (nat \<times> nat)" where
  "randint draws low high pos =
     (if high \<le> low then Inl ValueError
      else Inr (low + draws pos mod (high - low), Suc pos))"

text \<open>\<open>np.mean\<close>: \<open>nan\<close> (here \<open>None\<close>) for an empty sample.\<close>

definition np_mean :: "real list \<Rightarrow> real option" where
  "np_mean xs = (if xs = [] then None else Some (sum_list xs / real (length xs)))"

text \<open>\<open>np.std\<close> with its default \<open>ddof = 0\<close>: \<open>sqrt(mean(abs(x - x.mean()) ** 2))\<close>,
  here without rounding.\<close>

definition np_std :: "real list \<Rightarrow> real option" where
  "np_std xs =
     (case np_mean xs of
        None \<Rightarrow> None
      | Some mu \<Rightarrow> map_option sqrt (np_mean (map (\<lambda>x. \<bar>x - mu\<bar> ^ 2) xs)))"

text \<open>Python's \<open>a / b\<close> on two \<open>int\<close> counters.\<close>

definition py_div :: "nat \<Rightarrow> nat \<Rightarrow> error + real" where
  "py_div a b = (if b = 0 then Inl ZeroDivisionError else Inr (real a / real b))"

text \<open>\<open>price > threshold\<close> on floats: a comparison with \<open>nan\<close> is false.\<close>

definition exceeds :: "real \<Rightarrow> real option \<Rightarrow> bool" where
  "exceeds price threshold = (case threshold of None \<Rightarrow> False | Some t \<Rightarrow> price > t)"

section \<open>Day partitioning\<close>

text \<open>
  \<open>group_by_trading_day\<close> first assigns the column \<open>Date\<close> in the table it was given,
  then groups that table by the date of the index. pandas' \<open>groupby\<close> yields the groups
  in ascending key order, each with its rows in the order of the table, and
  \<open>dict(tuple(...))\<close> keeps that order. The function returns the table as it left it and
  the dictionary, an association list in iteration order. The table is one with a
  time-stamp index, which every row of a provider's answer carries; \<open>main\<close> calls the
  function only with a table of at least one row, the loader having raised otherwise.
\<close>

definition add_Date :: "bar \<Rightarrow> dated_bar" where
  "add_Date b =
     \<lparr>timestamp = timestamp b, Open = Open b, Close = Close b, Date = date (timestamp b)\<rparr>"

definition group_by_trading_day :: "bar list \<Rightarrow> dated_bar list \<times> (nat \<times> dated_bar list) list" where
  "group_by_trading_day data =
     (let data' = map add_Date data;
          keys = sort (remdups (map (\<lambda>b. date (timestamp b)) data'));
          daily_groups = map (\<lambda>d. (d, filter (\<lambda>b. date (timestamp b) = d) data')) keys
      in (data', daily_groups))"

section \<open>The unconditional analysis (analyze-exchange-rate.py)\<close>

text \<open>
  The body of the day loop once the reference index is drawn: the price at the index,
  the threshold, the prices after the index, and the test whether any of them is above
  the threshold.
\<close>

definition crossed :: "'a bar_scheme list \<Rightarrow> nat \<Rightarrow> real \<Rightarrow> real option \<Rightarrow> error + bool" where
  "crossed day_data first_half_idx multiplier overall_stdev =
     (case iloc (map Close day_data) first_half_idx of
        Inl e \<Rightarrow> Inl e
      | Inr first_half_price \<Rightarrow>
          (let threshold = map_option (\<lambda>s. first_half_price + multiplier * s) overall_stdev;
               remaining_prices = drop (first_half_idx + 1) (map Close day_data)
           in Inr (list_ex (\<lambda>price. exceeds price threshold) remaining_prices)))"

text \<open>One day of the loop over \<open>daily_groups.items()\<close>; the state is the counter and the
  position of the generator.\<close>

definition trial_day ::
  "(nat \<Rightarrow> nat) \<Rightarrow> real \<Rightarrow> real option \<Rightarrow> 'a bar_scheme list \<Rightarrow> nat \<times> nat \<Rightarrow> error + (nat \<times> nat)" where
  "trial_day draws multiplier overall_stdev day_data st =
     (case st of (count, pos) \<Rightarrow>
        (if length day_data > 1 then
           (let mid_point = length day_data div 2 in
            (case randint draws 0 mid_point pos of
               Inl e \<Rightarrow> Inl e
             | Inr (first_half_idx, pos') \<Rightarrow>
                 (case crossed day_data first_half_idx multiplier overall_stdev of
                    Inl e \<Rightarrow> Inl e
                  | Inr c \<Rightarrow> Inr (if c then count + 1 else count, pos'))))
         else Inr (count, pos)))"

fun run_days ::
  "(nat \<Rightarrow> nat) \<Rightarrow> real \<Rightarrow> real option \<Rightarrow> (nat \<times> 'a bar_scheme list) list \<Rightarrow> nat \<times> nat
     \<Rightarrow> error + (nat \<times> nat)" where
  "run_days draws multiplier overall_stdev [] st = Inr st"
| "run_days draws multiplier overall_stdev ((d, day_data) # rest) st =
     (case trial_day draws multiplier overall_stdev day_data st of
        Inl e \<Rightarrow> Inl e
      | Inr st' \<Rightarrow> run_days draws multiplier overall_stdev rest st')"

text \<open>One simulation run: the body of the loop over \<open>range(num_simulations)\<close>, which
  yields the percentage appended to \<open>results\<close>.\<close>

definition run_once ::
  "(nat \<Rightarrow> nat) \<Rightarrow> real \<Rightarrow> real option \<Rightarrow> (nat \<times> 'a bar_scheme list) list \<Rightarrow> nat
     \<Rightarrow> error + (real \<times> nat)" where
  "run_once draws multiplier overall_stdev daily_groups pos =
     (let total_days = length daily_groups in
      case run_days draws multiplier overall_stdev daily_groups (0, pos) of
        Inl e \<Rightarrow> Inl e
      | Inr (count, pos') \<Rightarrow>
          (case py_div count total_days of
             Inl e \<Rightarrow> Inl e
           | Inr q \<Rightarrow> Inr (q * 100, pos')))"

fun simulate ::
  "(nat \<Rightarrow> nat) \<Rightarrow> real \<Rightarrow> real option \<Rightarrow> (nat \<times> 'a bar_scheme list) list \<Rightarrow> nat
     \<Rightarrow> real list \<times> nat \<Rightarrow> error + (real list \<times> nat)" where
  "simulate draws multiplier overall_stdev daily_groups 0 st = Inr st"
| "simulate draws multiplier overall_stdev daily_groups (Suc k) st =
     (case st of (results, pos) \<Rightarrow>
        (case run_once draws multiplier overall_stdev daily_groups pos of
           Inl e \<Rightarrow> Inl e
         | Inr (pct, pos') \<Rightarrow>
             simulate draws multiplier overall_stdev daily_groups k (results @ [pct], pos')))"

definition all_prices :: "(nat \<times> 'a bar_scheme list) list \<Rightarrow> real list" where
  "all_prices daily_groups = concat (map (\<lambda>(d, day_data). map Close day_data) daily_groups)"

text \<open>\<open>calculate_threshold_crossing\<close>: the returned pair and the generator's position
  after the call.\<close>

definition calculate_threshold_crossing ::
  "(nat \<Rightarrow> nat) \<Rightarrow> (nat \<times> 'a bar_scheme list) list \<Rightarrow> real \<Rightarrow> nat \<Rightarrow> nat
     \<Rightarrow> error + ((real option \<times> real option) \<times> nat)" where
  "calculate_threshold_crossing draws daily_groups multiplier num_simulations pos =
     (let overall_stdev = np_std (all_prices daily_groups) in
      case simulate draws multiplier overall_stdev daily_groups num_simulations ([], pos) of
        Inl e \<Rightarrow> Inl e
      | Inr (results, pos') \<Rightarrow> Inr ((np_mean results, overall_stdev), pos'))"






section \<open>The trial in the arithmetic of the machine\<close>

text \<open>
  A binary64 number is a real of the format, an infinity or \<open>nan\<close>; the sign of zero,
  which neither the sum, the product nor the comparison below can tell apart, is not
  kept. \<open>round_double\<close> is rounding to nearest, ties to even, of IEEE 754: a real in the
  binade of exponent \<open>e\<close> (at least -1022, below which the numbers are subnormal) is
  rounded to a multiple of \<open>2 powi (e - 52)\<close>, and a result of magnitude \<open>2 ^ 1024\<close> or
  more overflows to the infinity of its sign. \<open>fl_add\<close>, \<open>fl_mul\<close> and \<open>fl_gt\<close> are
  \<open>+\<close>, \<open>*\<close> and \<open>>\<close> on such numbers.
\<close>

datatype double = Finite real | PosInf | NegInf | NaN

definition rne :: "real \<Rightarrow> int" where
  "rne x =
     (let f = \<lfloor>x\<rfloor>; d = x - of_int f in
      if d < 1 / 2 then f
      else if 1 / 2 < d then f + 1
      else if even f then f else f + 1)"

definition binade :: "real \<Rightarrow> int" where
  "binade x = max (- 1022) \<lfloor>log 2 \<bar>x\<bar>\<rfloor>"

definition overflow_threshold :: real where
  "overflow_threshold = 2 ^ 1024"

definition sign_inf :: "bool \<Rightarrow> double" where
  "sign_inf positive = (if positive then PosInf else NegInf)"

definition round_double :: "real \<Rightarrow> double" where
  "round_double x =
     (if x = 0 then Finite 0
      else
        (let q = 2 powi (binade x - 52);
             y = of_int (rne (x / q)) * q in
         if overflow_threshold \<le> \<bar>y\<bar> then sign_inf (0 < x) else Finite y))"

fun fl_add :: "double \<Rightarrow> double \<Rightarrow> double" where
  "fl_add NaN b = NaN"
| "fl_add a NaN = NaN"
| "fl_add PosInf NegInf = NaN"
| "fl_add NegInf PosInf = NaN"
| "fl_add PosInf b = PosInf"
| "fl_add a PosInf = PosInf"
| "fl_add NegInf b = NegInf"
| "fl_add a NegInf = NegInf"
| "fl_add (Finite x) (Finite y) = round_double (x + y)"

fun fl_mul :: "double \<Rightarrow> double \<Rightarrow> double" where
  "fl_mul NaN b = NaN"
| "fl_mul a NaN = NaN"
| "fl_mul (Finite x) (Finite y) = round_double (x * y)"
| "fl_mul (Finite x) PosInf = (if x = 0 then NaN else sign_inf (0 < x))"
| "fl_mul (Finite x) NegInf = (if x = 0 then NaN else sign_inf (x < 0))"
| "fl_mul PosInf (Finite y) = (if y = 0 then NaN else sign_inf (0 < y))"
| "fl_mul NegInf (Finite y) = (if y = 0 then NaN else sign_inf (y < 0))"
| "fl_mul PosInf PosInf = PosInf"
| "fl_mul NegInf NegInf = PosInf"
| "fl_mul PosInf NegInf = NegInf"
| "fl_mul NegInf PosInf = NegInf"

fun fl_gt :: "double \<Rightarrow> double \<Rightarrow> bool" where
  "fl_gt NaN b = False"
| "fl_gt a NaN = False"
| "fl_gt (Finite x) (Finite y) = (x > y)"
| "fl_gt PosInf PosInf = False"
| "fl_gt PosInf b = True"
| "fl_gt a PosInf = False"
| "fl_gt NegInf b = False"
| "fl_gt a NegInf = True"

text \<open>
  One day of the loop over \<open>daily_groups.items()\<close> of analyze-exchange-rate.py, as
  \<open>trial_day\<close> above, with \<open>threshold = first_half_price + (multiplier * overall_stdev)\<close>
  and \<open>price > threshold\<close> computed in binary64.
\<close>

definition trial_day_double ::
  "(nat \<Rightarrow> nat) \<Rightarrow> real \<Rightarrow> double \<Rightarrow> 'a bar_scheme list \<Rightarrow> nat \<times> nat
     \<Rightarrow> error + (nat \<times> nat)" where
  "trial_day_double draws multiplier overall_stdev day_data st =
     (case st of (count, pos) \<Rightarrow>
        (if length day_data > 1 then
           (let mid_point = length day_data div 2 in
            (case randint draws 0 mid_point pos of
               Inl e \<Rightarrow> Inl e
             | Inr (first_half_idx, pos') \<Rightarrow>
                 (case iloc (map Close day_data) first_half_idx of
                    Inl e \<Rightarrow> Inl e
                  | Inr first_half_price \<Rightarrow>
                      (let threshold =
                             fl_add (Finite first_half_price)
                               (fl_mul (Finite multiplier) overall_stdev);
                           remaining_prices = drop (first_half_idx + 1) (map Close day_data)
                       in Inr (if list_ex (\<lambda>price. fl_gt (Finite price) threshold)
                                    remaining_prices
                               then count + 1 else count,
                               pos')))))
         else Inr (count, pos)))"

section \<open>The conditional analysis (analyze-upward-threshold-with-condition.py)\<close>

text \<open>The three counters that live across all simulation runs.\<close>

record tally =
  good_trade_count :: nat
  bad_trade_count :: nat
  no_action_count :: nat

text \<open>One day of the day loop; the state is the run's counter, the three counters and
  the position of the generator.\<close>

definition trial_day_cond ::
  "(nat \<Rightarrow> nat) \<Rightarrow> real \<Rightarrow> real option \<Rightarrow> 'a bar_scheme list \<Rightarrow> nat \<times> tally \<times> nat
     \<Rightarrow> error + (nat \<times> tally \<times> nat)" where
  "trial_day_cond draws multiplier overall_stdev day_data st =
     (case st of (count, t, pos) \<Rightarrow>
        (if length day_data > 1 then
           (let mid_point = length day_data div 2 in
            (case randint draws 0 mid_point pos of
               Inl e \<Rightarrow> Inl e
             | Inr (first_half_idx, pos') \<Rightarrow>
                 (case iloc (map Close day_data) first_half_idx of
                    Inl e \<Rightarrow> Inl e
                  | Inr first_half_price \<Rightarrow>
                      (case iloc (map Close day_data) 0 of
                         Inl e \<Rightarrow> Inl e
                       | Inr start_day_price \<Rightarrow>
                           (let threshold =
                                  map_option (\<lambda>s. first_half_price + multiplier * s) overall_stdev;
                                remaining_prices = drop (first_half_idx + 1) (map Close day_data);
                                count' =
                                  (if list_ex (\<lambda>price. exceeds price threshold) remaining_prices
                                   then count + 1 else count);
                                t' =
                                  (if first_half_price > start_day_price
                                   then t\<lparr>no_action_count := no_action_count t + 1\<rparr>
                                   else if list_ex (\<lambda>price. exceeds price threshold) remaining_prices
                                   then t\<lparr>good_trade_count := good_trade_count t + 1\<rparr>
                                   else t\<lparr>bad_trade_count := bad_trade_count t + 1\<rparr>)
                            in Inr (count', t', pos'))))))
         else Inr (count, t, pos)))"

fun run_days_cond ::
  "(nat \<Rightarrow> nat) \<Rightarrow> real \<Rightarrow> real option \<Rightarrow> (nat \<times> 'a bar_scheme list) list
     \<Rightarrow> nat \<times> tally \<times> nat \<Rightarrow> error + (nat \<times> tally \<times> nat)" where
  "run_days_cond draws multiplier overall_stdev [] st = Inr st"
| "run_days_cond draws multiplier overall_stdev ((d, day_data) # rest) st =
     (case trial_day_cond draws multiplier overall_stdev day_data st of
        Inl e \<Rightarrow> Inl e
      | Inr st' \<Rightarrow> run_days_cond draws multiplier overall_stdev rest st')"

text \<open>One simulation run of the conditional script: the percentage appended to
  \<open>results\<close>, the three counters and the generator after the run.\<close>

definition run_once_cond ::
  "(nat \<Rightarrow> nat) \<Rightarrow> real \<Rightarrow> real option \<Rightarrow> (nat \<times> 'a bar_scheme list) list \<Rightarrow> tally \<times> nat
     \<Rightarrow> error + (real \<times> tally \<times> nat)" where
  "run_once_cond draws multiplier overall_stdev daily_groups st =
     (case st of (t, pos) \<Rightarrow>
        (let total_days = length daily_groups in
         (case run_days_cond draws multiplier overall_stdev daily_groups (0, t, pos) of
            Inl e \<Rightarrow> Inl e
          | Inr (count, t', pos') \<Rightarrow>
              (case py_div count total_days of
                 Inl e \<Rightarrow> Inl e
               | Inr q \<Rightarrow> Inr (q * 100, t', pos')))))"

fun simulate_cond ::
  "(nat \<Rightarrow> nat) \<Rightarrow> real \<Rightarrow> real option \<Rightarrow> (nat \<times> 'a bar_scheme list) list \<Rightarrow> nat
     \<Rightarrow> real list \<times> tally \<times> nat \<Rightarrow> error + (real list \<times> tally \<times> nat)" where
  "simulate_cond draws multiplier overall_stdev daily_groups 0 st = Inr st"
| "simulate_cond draws multiplier overall_stdev daily_groups (Suc k) st =
     (case st of (results, t, pos) \<Rightarrow>
        (case run_once_cond draws multiplier overall_stdev daily_groups (t, pos) of
           Inl e \<Rightarrow> Inl e
         | Inr (pct, t', pos') \<Rightarrow>
             simulate_cond draws multiplier overall_stdev daily_groups k
               (results @ [pct], t', pos')))"

text \<open>What the conditional \<open>calculate_threshold_crossing\<close> prints when it is done
  (\<open>good trades\<close>, \<open>bad trades\<close>, \<open>skipped\<close>, \<open>pct\<close>, \<open>pct for all\<close>).\<close>

record summary =
  good_trades :: nat
  bad_trades :: nat
  skipped :: nat
  pct :: real
  pct_for_all :: "real option"

text \<open>The conditional \<open>calculate_threshold_crossing\<close>: the returned pair, the printed
  summary and the generator's position after the call.\<close>

definition calculate_threshold_crossing_cond ::
  "(nat \<Rightarrow> nat) \<Rightarrow> (nat \<times> 'a bar_scheme list) list \<Rightarrow> real \<Rightarrow> nat \<Rightarrow> nat
     \<Rightarrow> error + ((real \<times> real option) \<times> summary \<times> nat)" where
  "calculate_threshold_crossing_cond draws daily_groups multiplier num_simulations pos =
     (let overall_stdev = np_std (all_prices daily_groups);
          t0 = \<lparr>good_trade_count = 0, bad_trade_count = 0, no_action_count = 0\<rparr> in
      (case simulate_cond draws multiplier overall_stdev daily_groups num_simulations
              ([], t0, pos) of
         Inl e \<Rightarrow> Inl e
       | Inr (results, t, pos') \<Rightarrow>
           (case py_div (good_trade_count t) (good_trade_count t + bad_trade_count t) of
              Inl e \<Rightarrow> Inl e
            | Inr q \<Rightarrow>
                (let good_pct = q * 100 in
                 Inr ((good_pct, overall_stdev),
                      \<lparr>good_trades = good_trade_count t, bad_trades = bad_trade_count t,
                       skipped = no_action_count t, pct = good_pct,
                       pct_for_all = np_mean results\<rparr>,
                      pos')))))"

section \<open>The specification's notions\<close>

text \<open>The reference index of a day whose trial reads position \<open>pos\<close> of the generator.\<close>

definition drawn :: "(nat \<Rightarrow> nat) \<Rightarrow> nat \<Rightarrow> 'a list \<Rightarrow> nat" where
  "drawn draws pos day = draws pos mod (length day div 2)"

text \<open>The crossing condition: some bar strictly after index \<open>r\<close> closes above
  \<open>reference_price + multiplier * dispersion_statistic\<close>. Nothing is above a threshold
  that is not a number.\<close>

definition spec_crossed :: "'a bar_scheme list \<Rightarrow> nat \<Rightarrow> real \<Rightarrow> real option \<Rightarrow> bool" where
  "spec_crossed day r multiplier dispersion =
     (case dispersion of
        None \<Rightarrow> False
      | Some sd \<Rightarrow>
          (\<exists>i \<in> {r + 1 ..< length day}. Close (day ! i) > Close (day ! r) + multiplier * sd))"

text \<open>The trial-eligible days, in iteration order: those with at least two bars.\<close>

definition eligible :: "(nat \<times> 'a list) list \<Rightarrow> 'a list list" where
  "eligible daily_groups = filter (\<lambda>day. 2 \<le> length day) (map snd daily_groups)"

text \<open>The trials of a run that starts at position \<open>pos\<close> of the generator: the k-th
  eligible day reads position \<open>pos + k\<close>.\<close>

definition trials :: "(nat \<times> 'a list) list \<Rightarrow> nat \<Rightarrow> (nat \<times> 'a list) list" where
  "trials daily_groups pos = enumerate pos (eligible daily_groups)"

text \<open>The number of days classified crossed in the run that starts at \<open>pos\<close>.\<close>

definition crossed_count ::
  "(nat \<Rightarrow> nat) \<Rightarrow> real \<Rightarrow> real option \<Rightarrow> (nat \<times> 'a bar_scheme list) list \<Rightarrow> nat \<Rightarrow> nat" where
  "crossed_count draws multiplier dispersion daily_groups pos =
     length (filter (\<lambda>(p, day). spec_crossed day (drawn draws p day) multiplier dispersion)
               (trials daily_groups pos))"


text \<open>The run percentage over all the days of the dictionary.\<close>

definition run_percentage ::
  "(nat \<Rightarrow> nat) \<Rightarrow> real \<Rightarrow> real option \<Rightarrow> (nat \<times> 'a bar_scheme list) list \<Rightarrow> nat \<Rightarrow> real" where
  "run_percentage draws multiplier dispersion daily_groups pos =
     100 * real (crossed_count draws multiplier dispersion daily_groups pos)
       / real (length daily_groups)"

text \<open>The position of the generator at which run \<open>s\<close> starts.\<close>

definition run_start :: "(nat \<times> 'a list) list \<Rightarrow> nat \<Rightarrow> nat \<Rightarrow> nat" where
  "run_start daily_groups pos s = pos + s * length (eligible daily_groups)"

text \<open>The conditional variant's classes of a trial.\<close>

datatype outcome = Skipped | Good | Bad

definition classify :: "'a bar_scheme list \<Rightarrow> nat \<Rightarrow> real \<Rightarrow> real option \<Rightarrow> outcome" where
  "classify day r multiplier dispersion =
     (if Close (day ! r) > Close (day ! 0) then Skipped
      else if spec_crossed day r multiplier dispersion then Good
      else Bad)"

definition outcome_count ::
  "outcome \<Rightarrow> (nat \<Rightarrow> nat) \<Rightarrow> real \<Rightarrow> real option \<Rightarrow> (nat \<times> 'a bar_scheme list) list \<Rightarrow> nat
     \<Rightarrow> nat" where
  "outcome_count oc draws multiplier dispersion daily_groups pos =
     length (filter (\<lambda>(p, day). classify day (drawn draws p day) multiplier dispersion = oc)
               (trials daily_groups pos))"

text \<open>The pooled count of a class over the first \<open>n\<close> runs.\<close>

definition outcome_total ::
  "outcome \<Rightarrow> (nat \<Rightarrow> nat) \<Rightarrow> real \<Rightarrow> real option \<Rightarrow> (nat \<times> 'a bar_scheme list) list \<Rightarrow> nat
     \<Rightarrow> nat \<Rightarrow> nat" where
  "outcome_total oc draws multiplier dispersion daily_groups pos n =
     sum_list (map (\<lambda>s. outcome_count oc draws multiplier dispersion daily_groups
                          (run_start daily_groups pos s)) [0 ..< n])"

section \<open>Example inputs\<close>

definition example_bar :: "nat \<Rightarrow> nat \<Rightarrow> real \<Rightarrow> bar" where
  "example_bar d t c = \<lparr>timestamp = \<lparr>date = d, time = t\<rparr>, Open = c, Close = c\<rparr>"

text \<open>A day that stays at 10 and closes its last bar at 100.\<close>

definition spike_day :: "bar list" where
  "spike_day = [example_bar 1 0 10, example_bar 1 1 10, example_bar 1 2 10,
                example_bar 1 3 10, example_bar 1 4 100]"

text \<open>A day that stays at 10.\<close>

definition flat_day :: "bar list" where
  "flat_day = [example_bar 1 0 10, example_bar 1 1 10, example_bar 1 2 10, example_bar 1 3 10]"

text \<open>A day of two closes that are four apart where binary64 numbers are two apart.\<close>

definition tie_day :: "bar list" where
  "tie_day = [example_bar 1 0 (2 ^ 53), example_bar 1 1 (2 ^ 53 + 4)]"

text \<open>Two generators: one that always holds 0, one that always holds 1.\<close>

definition zero_draws :: "nat \<Rightarrow> nat" where
  "zero_draws p = 0"

definition one_draws :: "nat \<Rightarrow> nat" where
  "one_draws p = 1"

text \<open>A series of two dates: three bars on the first, a single bar on the second.\<close>

definition mixed_series :: "bar list" where
  "mixed_series = [example_bar 1 0 1, example_bar 1 1 3, example_bar 1 2 1, example_bar 2 0 3]"

definition mixed_groups :: "(nat \<times> dated_bar list) list" where
  "mixed_groups = snd (group_by_trading_day mixed_series)"

text \<open>A series of one date with a single bar.\<close>

definition lone_series :: "bar list" where
  "lone_series = [example_bar 1 0 10]"

definition lone_groups :: "(nat \<times> dated_bar list) list" where
  "lone_groups = snd (group_by_trading_day lone_series)"

text \<open>A day of four bars whose second bar closes above the first.\<close>

definition high_series :: "bar list" where
  "high_series = [example_bar 1 0 10, example_bar 1 1 20, example_bar 1 2 5, example_bar 1 3 5]"

definition high_groups :: "(nat \<times> dated_bar list) list" where
  "high_groups = snd (group_by_trading_day high_series)"

section \<open>The loops in closed form\<close>

subsection \<open>Indexing and the crossing test\<close>

lemma list_ex_drop_nth:
  "list_ex P (drop k xs) \<longleftrightarrow> (\<exists>i \<in> {k ..< length xs}. P (xs ! i))"
proof
  assume "list_ex P (drop k xs)"
  then obtain j where j: "j < length (drop k xs)" "P (drop k xs ! j)"
    by (auto simp: list_ex_iff in_set_conv_nth)
  then have "k + j \<in> {k ..< length xs}" "P (xs ! (k + j))" by auto
  then show "\<exists>i \<in> {k ..< length xs}. P (xs ! i)" by blast
next
  assume "\<exists>i \<in> {k ..< length xs}. P (xs ! i)"
  then obtain i where i: "k \<le> i" "i < length xs" "P (xs ! i)" by auto
  then have "i - k < length (drop k xs)" "drop k xs ! (i - k) = xs ! i" by auto
  with i(3) show "list_ex P (drop k xs)"
    unfolding list_ex_iff by (metis nth_mem)
qed

lemma drawn_lt: "2 \<le> length day \<Longrightarrow> drawn draws pos day < length day div 2"
  by (simp add: drawn_def)

lemma drawn_lt_length: "2 \<le> length day \<Longrightarrow> drawn draws pos day < length day"
  using drawn_lt [of day draws pos] by simp

lemma any_above_eq:
  assumes "r < length day"
  shows "list_ex (\<lambda>price. exceeds price (map_option (\<lambda>s. Close (day ! r) + m * s) osd))
           (drop (r + 1) (map Close day)) = spec_crossed day r m osd"
  using assms by (cases osd) (auto simp: spec_crossed_def exceeds_def list_ex_drop_nth)

lemma crossed_in_range:
  assumes "r < length day"
  shows "crossed day r m osd = Inr (spec_crossed day r m osd)"
  using assms any_above_eq [OF assms, of m osd]
  by (simp add: crossed_def iloc_def Let_def)

subsection \<open>The unconditional script\<close>

lemma trial_day_eq:
  "trial_day draws m osd day (count, pos) =
     Inr (if 2 \<le> length day
          then (count + (if spec_crossed day (drawn draws pos day) m osd then 1 else 0), Suc pos)
          else (count, pos))"
proof (cases "2 \<le> length day")
  case True
  then show ?thesis using drawn_lt_length [OF True, of draws pos]
    by (simp add: trial_day_def randint_def crossed_in_range drawn_def[symmetric] Let_def)
next
  case False
  then show ?thesis by (simp add: trial_day_def)
qed

lemma run_days_eq:
  "run_days draws m osd groups (count, pos) =
     Inr (count + crossed_count draws m osd groups pos, pos + length (eligible groups))"
proof (induction groups arbitrary: count pos)
  case Nil
  then show ?case by (simp add: crossed_count_def eligible_def trials_def)
next
  case (Cons g groups)
  obtain d day where g: "g = (d, day)" by (cases g)
  show ?case
    by (simp add: g trial_day_eq Cons.IH) (simp add: crossed_count_def eligible_def trials_def)
qed

lemma run_once_eq:
  "run_once draws m osd groups pos =
     (if groups = [] then Inl ZeroDivisionError
      else Inr (run_percentage draws m osd groups pos, pos + length (eligible groups)))"
  by (simp add: run_once_def run_days_eq py_div_def run_percentage_def)

lemma upt_Suc_shift: "[0 ..< Suc k] = 0 # map Suc [0 ..< k]"
  by (simp add: upt_conv_Cons map_Suc_upt del: upt_Suc)

lemma simulate_eq:
  assumes "groups \<noteq> []"
  shows "simulate draws m osd groups k (results, pos) =
     Inr (results @ map (\<lambda>s. run_percentage draws m osd groups (run_start groups pos s)) [0 ..< k],
          run_start groups pos k)"
proof (induction k arbitrary: results pos)
  case 0
  then show ?case by (simp add: run_start_def)
next
  case (Suc k)
  have shift: "run_start groups (pos + length (eligible groups)) s = run_start groups pos (Suc s)" for s
    by (simp add: run_start_def)
  show ?case
    by (simp add: run_once_eq assms Suc.IH shift upt_Suc_shift comp_def del: upt_Suc)
       (simp add: run_start_def)
qed

lemma simulate_empty:
  "simulate draws m osd [] k (results, pos) =
     (if k = 0 then Inr (results, pos) else Inl ZeroDivisionError)"
  by (cases k) (simp_all add: run_once_eq)

lemma calculate_threshold_crossing_eq:
  assumes "groups \<noteq> []"
  shows "calculate_threshold_crossing draws groups m n pos =
     Inr ((np_mean (map (\<lambda>s. run_percentage draws m (np_std (all_prices groups)) groups
                               (run_start groups pos s)) [0 ..< n]),
           np_std (all_prices groups)),
          run_start groups pos n)"
  by (simp add: calculate_threshold_crossing_def simulate_eq [OF assms] Let_def)


subsection \<open>The conditional script\<close>

lemma trial_day_cond_eq:
  "trial_day_cond draws m osd day (count, t, pos) =
     Inr (if 2 \<le> length day
          then (count + (if spec_crossed day (drawn draws pos day) m osd then 1 else 0),
                \<lparr>good_trade_count = good_trade_count t
                    + of_bool (classify day (drawn draws pos day) m osd = Good),
                 bad_trade_count = bad_trade_count t
                    + of_bool (classify day (drawn draws pos day) m osd = Bad),
                 no_action_count = no_action_count t
                    + of_bool (classify day (drawn draws pos day) m osd = Skipped)\<rparr>,
                Suc pos)
          else (count, t, pos))"
proof (cases "2 \<le> length day")
  case True
  then show ?thesis
    using drawn_lt_length [OF True, of draws pos]
      any_above_eq [OF drawn_lt_length [OF True, of draws pos], of m osd]
    by (auto simp: trial_day_cond_def randint_def iloc_def drawn_def[symmetric] Let_def classify_def)
next
  case False
  then show ?thesis by (simp add: trial_day_cond_def)
qed

lemma outcome_count_Nil: "outcome_count oc draws m osd [] pos = 0"
  by (simp add: outcome_count_def trials_def eligible_def)

lemma outcome_count_Cons:
  "outcome_count oc draws m osd ((d, day) # groups) pos =
     (if 2 \<le> length day
      then of_bool (classify day (drawn draws pos day) m osd = oc)
             + outcome_count oc draws m osd groups (Suc pos)
      else outcome_count oc draws m osd groups pos)"
  by (simp add: outcome_count_def trials_def eligible_def)

lemma crossed_count_Cons:
  "crossed_count draws m osd ((d, day) # groups) pos =
     (if 2 \<le> length day
      then (if spec_crossed day (drawn draws pos day) m osd then 1 else 0)
             + crossed_count draws m osd groups (Suc pos)
      else crossed_count draws m osd groups pos)"
  by (simp add: crossed_count_def trials_def eligible_def)

lemma eligible_Cons:
  "eligible ((d, day) # groups) =
     (if 2 \<le> length day then day # eligible groups else eligible groups)"
  by (simp add: eligible_def)

lemma run_days_cond_eq:
  "run_days_cond draws m osd groups (count, t, pos) =
     Inr (count + crossed_count draws m osd groups pos,
          \<lparr>good_trade_count = good_trade_count t + outcome_count Good draws m osd groups pos,
           bad_trade_count = bad_trade_count t + outcome_count Bad draws m osd groups pos,
           no_action_count = no_action_count t + outcome_count Skipped draws m osd groups pos\<rparr>,
          pos + length (eligible groups))"
proof (induction groups arbitrary: count t pos)
  case Nil
  then show ?case by (simp add: outcome_count_Nil crossed_count_def eligible_def trials_def)
next
  case (Cons g groups)
  obtain d day where g: "g = (d, day)" by (cases g)
  show ?case
    by (simp add: g trial_day_cond_eq Cons.IH outcome_count_Cons crossed_count_Cons eligible_Cons)
qed

lemma run_once_cond_eq:
  "run_once_cond draws m osd groups (t, pos) =
     (if groups = [] then Inl ZeroDivisionError
      else Inr (run_percentage draws m osd groups pos,
          \<lparr>good_trade_count = good_trade_count t + outcome_count Good draws m osd groups pos,
           bad_trade_count = bad_trade_count t + outcome_count Bad draws m osd groups pos,
           no_action_count = no_action_count t + outcome_count Skipped draws m osd groups pos\<rparr>,
          pos + length (eligible groups)))"
  by (simp add: run_once_cond_def run_days_cond_eq py_div_def run_percentage_def)

lemma run_start_shift:
  "run_start groups (pos + length (eligible groups)) s = run_start groups pos (Suc s)"
  by (simp add: run_start_def)

lemma outcome_total_Suc_shift:
  "outcome_total oc draws m osd groups pos (Suc k) =
     outcome_count oc draws m osd groups pos
       + outcome_total oc draws m osd groups (pos + length (eligible groups)) k"
  by (simp add: outcome_total_def upt_Suc_shift comp_def run_start_shift del: upt_Suc)
     (simp add: run_start_def)

lemma simulate_cond_eq:
  assumes "groups \<noteq> []"
  shows "simulate_cond draws m osd groups k (results, t, pos) =
     Inr (results @ map (\<lambda>s. run_percentage draws m osd groups (run_start groups pos s)) [0 ..< k],
          \<lparr>good_trade_count = good_trade_count t + outcome_total Good draws m osd groups pos k,
           bad_trade_count = bad_trade_count t + outcome_total Bad draws m osd groups pos k,
           no_action_count = no_action_count t + outcome_total Skipped draws m osd groups pos k\<rparr>,
          run_start groups pos k)"
proof (induction k arbitrary: results t pos)
  case 0
  then show ?case by (simp add: run_start_def outcome_total_def)
next
  case (Suc k)
  show ?case
    by (simp add: run_once_cond_eq assms Suc.IH run_start_shift outcome_total_Suc_shift
          upt_Suc_shift comp_def del: upt_Suc)
       (simp add: run_start_def)
qed

lemma simulate_cond_empty:
  "simulate_cond draws m osd [] k (results, t, pos) =
     (if k = 0 then Inr (results, t, pos) else Inl ZeroDivisionError)"
  by (cases k) (simp_all add: run_once_cond_eq)



section \<open>The trial\<close>

subsection \<open>Rounding at particular numbers\<close>

lemma rne_of_int: "rne (of_int k) = k"
  by (simp add: rne_def)

lemma binade_eqI:
  assumes "2 powi e \<le> \<bar>x\<bar>" and "\<bar>x\<bar> < 2 powi (e + 1)" and "- 1022 \<le> e"
  shows "binade x = e"
proof -
  have "(0::real) < 2 powi e" by simp
  with assms(1) have pos: "0 < \<bar>x\<bar>" by linarith
  have 1: "(2::real) powr (of_int e) = 2 powi e"
    by (simp add: powr_real_of_int')
  have "(2::real) powr (of_int (e + 1)) = 2 powi (e + 1)"
    by (rule powr_real_of_int') simp_all
  then have 2: "(2::real) powr (of_int e + 1) = 2 powi (e + 1)"
    by simp
  from assms(1,2) have "\<lfloor>log 2 \<bar>x\<bar>\<rfloor> = e"
    unfolding floor_log_eq_powr_iff [OF pos, of 2 e, simplified] 1 2 by simp
  with assms(3) show ?thesis by (simp add: binade_def)
qed

lemma round_double_exact:
  assumes "2 powi e \<le> \<bar>x\<bar>" and "\<bar>x\<bar> < 2 powi (e + 1)" and "- 1022 \<le> e"
    and "x = of_int k * 2 powi (e - 52)" and "\<bar>x\<bar> < overflow_threshold"
  shows "round_double x = Finite x"
proof -
  have b: "binade x = e" using assms(1-3) by (rule binade_eqI)
  have "(0::real) < 2 powi e" by simp
  with assms(1) have "0 < \<bar>x\<bar>" by linarith
  then have x0: "x \<noteq> 0" by simp
  have "x / 2 powi (e - 52) = of_int k" using assms(4) by simp
  then have y: "of_int (rne (x / 2 powi (e - 52))) * 2 powi (e - 52) = x"
    using assms(4) by (simp add: rne_of_int)
  show ?thesis
    unfolding round_double_def b Let_def y using x0 assms(5) by simp
qed

lemma small_below_overflow: "x < 2 ^ 64 \<Longrightarrow> x < overflow_threshold"
proof -
  have "(2::real) ^ 64 \<le> 2 ^ 1024" by (rule power_increasing) simp_all
  then show "x < 2 ^ 64 \<Longrightarrow> x < overflow_threshold"
    unfolding overflow_threshold_def by linarith
qed

lemma round_double_1: "round_double 1 = Finite 1"
  by (rule round_double_exact [of 0 _ "2 ^ 52"])
     (simp_all add: power_int_minus small_below_overflow)

lemma round_double_3: "round_double 3 = Finite 3"
  by (rule round_double_exact [of 1 _ "3 * 2 ^ 51"])
     (simp_all add: power_int_minus small_below_overflow)

lemma round_double_11: "round_double 11 = Finite 11"
  by (rule round_double_exact [of 3 _ "11 * 2 ^ 49"])
     (simp_all add: power_int_minus small_below_overflow)

lemma round_double_tie: "round_double (2 ^ 53 + 3) = Finite (2 ^ 53 + 4)"
proof -
  have b: "binade (2 ^ 53 + 3) = 53"
    by (rule binade_eqI) simp_all
  have q: "(2::real) powi (53 - 52) = 2" by simp
  have r: "rne ((2 ^ 53 + 3) / 2) = 2 ^ 52 + 2"
    by (simp add: rne_def Let_def)
  have y: "real_of_int (2 ^ 52 + 2) * 2 = 2 ^ 53 + 4" by simp
  have "\<bar>(2::real) ^ 53 + 4\<bar> < 2 ^ 64" by simp
  then have "\<bar>(2::real) ^ 53 + 4\<bar> < overflow_threshold"
    by (rule small_below_overflow)
  then have s: "\<not> overflow_threshold \<le> \<bar>(2::real) ^ 53 + 4\<bar>"
    by linarith
  have n0: "(2::real) ^ 53 + 3 \<noteq> 0" by simp
  show ?thesis
    unfolding round_double_def b Let_def q r y using s n0 by (simp only: if_False)
qed

subsection \<open>The crossing test\<close>

text \<open>
  Where the sum and the product do not round, the body of the day loop in binary64 is
  the body over the reals that the counting theorems use.
\<close>

lemma trial_day_double_exact:
  assumes "\<And>p. p \<in> set (map Close day) \<Longrightarrow>
             fl_add (Finite p) (fl_mul (Finite multiplier) (Finite sd))
               = Finite (p + multiplier * sd)"
  shows "trial_day_double draws multiplier (Finite sd) day st
           = trial_day draws multiplier (Some sd) day st"
proof (cases st)
  case (Pair count pos)
  show ?thesis
  proof (cases "2 \<le> length day")
    case True
    let ?r = "drawn draws pos day"
    have r: "?r < length day" by (rule drawn_lt_length [OF True])
    then have "Close (day ! ?r) \<in> set (map Close day)" by simp
    from assms [OF this]
    have th: "fl_add (Finite (Close (day ! ?r))) (fl_mul (Finite multiplier) (Finite sd))
                = Finite (Close (day ! ?r) + multiplier * sd)" .
    then have th: "fl_add (Finite (Close (day ! ?r))) (round_double (multiplier * sd))
                = Finite (Close (day ! ?r) + multiplier * sd)"
      by simp
    from True r show ?thesis
      unfolding Pair trial_day_double_def trial_day_def crossed_def
      by (simp add: randint_def iloc_def Let_def drawn_def [symmetric] th exceeds_def)
  next
    case False
    then show ?thesis
      by (simp add: Pair trial_day_double_def trial_day_def)
  qed
qed

text \<open>
  C1. Take a day with \<open>n\<close> bars, \<open>n\<close> at least 2, and a reference index \<open>r\<close> below
  \<open>n div 2\<close>. Some state of the generator makes \<open>randint(0, n div 2)\<close> return \<open>r\<close>, and
  whatever the generator holds the index returned is below \<open>n div 2\<close>. When the index
  returned is \<open>r\<close>, the day's trial raises no exception and adds one to the run's count
  exactly when some bar at an index after \<open>r\<close> and below \<open>n\<close> has a close strictly
  greater than the threshold, and leaves the count as it is otherwise. The threshold is
  the close at \<open>r\<close> plus the product of multiplier and dispersion, the sum and the
  product being those of binary64: the offset is added to the reference price.
\<close>

theorem trial_day_double_crossed_iff:
  assumes "2 \<le> length day" and "r < length day div 2"
  shows "(\<exists>tape. randint tape 0 (length day div 2) pos = Inr (r, Suc pos))
    \<and> (\<exists>r'. r' < length day div 2
            \<and> randint draws 0 (length day div 2) pos = Inr (r', Suc pos))
    \<and> (randint draws 0 (length day div 2) pos = Inr (r, pos') \<longrightarrow>
         trial_day_double draws multiplier overall_stdev day (count, pos) =
           Inr (if (\<exists>i. r < i \<and> i < length day
                       \<and> fl_gt (Finite (Close (day ! i)))
                            (fl_add (Finite (Close (day ! r)))
                               (fl_mul (Finite multiplier) overall_stdev)))
                then count + 1 else count,
                pos'))"
proof (intro conjI impI)
  from assms have mid: "0 < length day div 2" by simp
  show "\<exists>tape. randint tape 0 (length day div 2) pos = Inr (r, Suc pos)"
    using assms(2) by (intro exI [of _ "\<lambda>p. r"]) (simp add: randint_def)
  from mid have "draws pos mod (length day div 2) < length day div 2" by simp
  with mid show "\<exists>r'. r' < length day div 2
            \<and> randint draws 0 (length day div 2) pos = Inr (r', Suc pos)"
    by (simp add: randint_def)
next
  assume d: "randint draws 0 (length day div 2) pos = Inr (r, pos')"
  from assms have r: "r < length day" by simp
  have ex: "list_ex (\<lambda>price. fl_gt (Finite price) th) (drop (r + 1) (map Close day))
          \<longleftrightarrow> (\<exists>i. r < i \<and> i < length day \<and> fl_gt (Finite (Close (day ! i))) th)" for th
    by (auto simp: list_ex_drop_nth Suc_le_eq)
  from assms(1) have g: "1 < length day" by simp
  show "trial_day_double draws multiplier overall_stdev day (count, pos) =
           Inr (if (\<exists>i. r < i \<and> i < length day
                       \<and> fl_gt (Finite (Close (day ! i)))
                            (fl_add (Finite (Close (day ! r)))
                               (fl_mul (Finite multiplier) overall_stdev)))
                then count + 1 else count,
                pos')"
    unfolding trial_day_double_def prod.case Let_def d sum.case
    using g r ex [of "fl_add (Finite (Close (day ! r))) (fl_mul (Finite multiplier) overall_stdev)"]
    by (simp add: iloc_def)
qed

lemma flat_day_trial:
  "trial_day_double zero_draws 1 (Finite 1) flat_day (0, 0) = Inr (0, 1)"
  by (simp add: trial_day_double_def randint_def iloc_def zero_draws_def flat_day_def
        example_bar_def round_double_1 round_double_11)

lemma spike_day_trial:
  "trial_day_double zero_draws 1 (Finite 1) spike_day (0, 0) = Inr (1, 1)"
  by (simp add: trial_day_double_def randint_def iloc_def zero_draws_def spike_day_def
        example_bar_def round_double_1 round_double_11)

lemma tie_day_trial:
  "trial_day_double zero_draws (3 / 2) (Finite 2) tie_day (0, 0) = Inr (0, 1)"
  by (simp add: trial_day_double_def randint_def iloc_def zero_draws_def tie_day_def
        example_bar_def round_double_3)
     (use round_double_tie in simp)


lemma zero_draws_randint:
  "0 < mid \<Longrightarrow> randint zero_draws 0 mid 0 = Inr (0, 1)"
  by (simp add: randint_def zero_draws_def)

theorem trial_day_double_crossed_iff_witness:
  "fl_add (Finite 10) (fl_mul (Finite 1) (Finite 1)) = Finite 11
   \<and> trial_day_double zero_draws 1 (Finite 1) flat_day (0, 0) = Inr (0, 1)
   \<and> \<not> (\<exists>i. 0 < i \<and> i < length flat_day
            \<and> fl_gt (Finite (Close (flat_day ! i)))
                 (fl_add (Finite (Close (flat_day ! 0))) (fl_mul (Finite 1) (Finite 1))))
   \<and> trial_day_double zero_draws 1 (Finite 1) spike_day (0, 0) = Inr (1, 1)
   \<and> (\<exists>i. 0 < i \<and> i < length spike_day
          \<and> fl_gt (Finite (Close (spike_day ! i)))
               (fl_add (Finite (Close (spike_day ! 0))) (fl_mul (Finite 1) (Finite 1))))
   \<and> fl_add (Finite (2 ^ 53)) (fl_mul (Finite (3 / 2)) (Finite 2)) = Finite (2 ^ 53 + 4)
   \<and> trial_day_double zero_draws (3 / 2) (Finite 2) tie_day (0, 0) = Inr (0, 1)"
proof -
  have flat: "2 \<le> length flat_day" "0 < length flat_day div 2"
    by (simp_all add: flat_day_def)
  have spike: "2 \<le> length spike_day" "0 < length spike_day div 2"
    by (simp_all add: spike_day_def)
  have tie: "2 \<le> length tie_day" "0 < length tie_day div 2"
    by (simp_all add: tie_day_def)
  have t11: "fl_add (Finite 10) (fl_mul (Finite 1) (Finite 1)) = Finite 11"
    by (simp add: round_double_1 round_double_11)
  have ttie: "fl_add (Finite (2 ^ 53)) (fl_mul (Finite (3 / 2)) (Finite 2)) = Finite (2 ^ 53 + 4)"
    using round_double_tie by (simp add: round_double_3)
  from trial_day_double_crossed_iff [OF flat, of 0 zero_draws 1 1 "Finite 1" 0]
    zero_draws_randint [OF flat(2)] flat_day_trial
  have 1: "\<not> (\<exists>i. 0 < i \<and> i < length flat_day
            \<and> fl_gt (Finite (Close (flat_day ! i)))
                 (fl_add (Finite (Close (flat_day ! 0))) (fl_mul (Finite 1) (Finite 1))))"
    by (auto split: if_splits)
  from trial_day_double_crossed_iff [OF spike, of 0 zero_draws 1 1 "Finite 1" 0]
    zero_draws_randint [OF spike(2)] spike_day_trial
  have 2: "\<exists>i. 0 < i \<and> i < length spike_day
          \<and> fl_gt (Finite (Close (spike_day ! i)))
               (fl_add (Finite (Close (spike_day ! 0))) (fl_mul (Finite 1) (Finite 1)))"
    by (auto split: if_splits)
  from t11 flat_day_trial 1 spike_day_trial 2 ttie tie_day_trial
  show ?thesis by (intro conjI)
qed

section \<open>The run percentage\<close>

lemma mixed_groups_eq:
  "mixed_groups =
     [(1, [add_Date (example_bar 1 0 1), add_Date (example_bar 1 1 3), add_Date (example_bar 1 2 1)]),
      (2, [add_Date (example_bar 2 0 3)])]"
  by (simp add: mixed_groups_def group_by_trading_day_def mixed_series_def add_Date_def example_bar_def)



lemma mixed_eligible:
  "eligible mixed_groups = [[add_Date (example_bar 1 0 1), add_Date (example_bar 1 1 3), add_Date (example_bar 1 2 1)]]"
  by (simp add: mixed_groups_eq eligible_def)

lemma mixed_crossed_count_1: "crossed_count zero_draws 1 (Some 1) mixed_groups pos = 1"
  apply (simp add: crossed_count_def trials_def mixed_eligible drawn_def zero_draws_def spec_crossed_def add_Date_def example_bar_def)
  apply (rule bexI[of _ 1]) apply simp_all
  done

lemma mixed_run_once: "run_once zero_draws 1 (Some 1) mixed_groups 0 = Inr (50, 1)"
  by (simp add: run_once_eq run_percentage_def mixed_crossed_count_1) (simp add: mixed_groups_eq eligible_def)


lemma mixed_groups_ne: "mixed_groups \<noteq> []"
  by (simp add: mixed_groups_eq)

lemma mixed_length_eligible: "length (eligible mixed_groups) = 1"
  by (simp add: mixed_eligible)






section \<open>The empty series\<close>




section \<open>The conditional classification\<close>



lemma high_groups_eq:
  "high_groups =
     [(1, [add_Date (example_bar 1 0 10), add_Date (example_bar 1 1 20),
           add_Date (example_bar 1 2 5), add_Date (example_bar 1 3 5)])]"
  by (simp add: high_groups_def group_by_trading_day_def high_series_def add_Date_def
        example_bar_def Let_def)




section \<open>The pooled estimate\<close>

lemma calculate_threshold_crossing_cond_eq:
  assumes "groups \<noteq> []"
  shows "calculate_threshold_crossing_cond draws groups m n pos =
     (if outcome_total Good draws m (np_std (all_prices groups)) groups pos n
           + outcome_total Bad draws m (np_std (all_prices groups)) groups pos n = 0
      then Inl ZeroDivisionError
      else Inr
        ((real (outcome_total Good draws m (np_std (all_prices groups)) groups pos n)
            / real (outcome_total Good draws m (np_std (all_prices groups)) groups pos n
                    + outcome_total Bad draws m (np_std (all_prices groups)) groups pos n) * 100,
          np_std (all_prices groups)),
         \<lparr>good_trades = outcome_total Good draws m (np_std (all_prices groups)) groups pos n,
          bad_trades = outcome_total Bad draws m (np_std (all_prices groups)) groups pos n,
          skipped = outcome_total Skipped draws m (np_std (all_prices groups)) groups pos n,
          pct = real (outcome_total Good draws m (np_std (all_prices groups)) groups pos n)
            / real (outcome_total Good draws m (np_std (all_prices groups)) groups pos n
                    + outcome_total Bad draws m (np_std (all_prices groups)) groups pos n) * 100,
          pct_for_all = np_mean (map (\<lambda>s. run_percentage draws m (np_std (all_prices groups))
                                        groups (run_start groups pos s)) [0 ..< n])\<rparr>,
         run_start groups pos n))"
  by (simp add: calculate_threshold_crossing_cond_def simulate_cond_eq [OF assms] Let_def
        py_div_def)






section \<open>The unguarded division\<close>

lemma outcome_count_all_Skipped:
  assumes "\<forall>day \<in> set (eligible groups). \<forall>p. Close (day ! drawn draws p day) > Close (day ! 0)"
  shows "outcome_count Good draws m osd groups pos = 0"
    and "outcome_count Bad draws m osd groups pos = 0"
proof -
  have "classify day (drawn draws p day) m osd = Skipped"
    if "(p, day) \<in> set (trials groups pos)" for p day
  proof -
    from that have "day \<in> set (eligible groups)"
      by (auto simp: trials_def in_set_enumerate_eq)
    with assms show ?thesis by (simp add: classify_def)
  qed
  then show "outcome_count Good draws m osd groups pos = 0"
    and "outcome_count Bad draws m osd groups pos = 0"
    by (auto simp: outcome_count_def filter_empty_conv)
qed

lemma outcome_total_all_Skipped:
  assumes "\<forall>day \<in> set (eligible groups). \<forall>p. Close (day ! drawn draws p day) > Close (day ! 0)"
  shows "outcome_total Good draws m osd groups pos n
           + outcome_total Bad draws m osd groups pos n = 0"
  by (simp add: outcome_total_def outcome_count_all_Skipped [OF assms])

text \<open>
  C9. Over a non-empty dictionary, when no trial of any run is classified good or bad
  the simulation loop of the conditional script completes with both counters at 0 and
  the final division raises ZeroDivisionError. This happens when every day has fewer
  than two bars, and when every reference price the generator can select is above the
  close of its day's first bar.
\<close>

theorem final_division_unguarded:
  assumes "daily_groups \<noteq> []"
  shows "(outcome_total Good draws multiplier (np_std (all_prices daily_groups)) daily_groups pos
            num_simulations
          + outcome_total Bad draws multiplier (np_std (all_prices daily_groups)) daily_groups
              pos num_simulations = 0 \<longrightarrow>
           (\<exists>results t pos'.
              simulate_cond draws multiplier (np_std (all_prices daily_groups)) daily_groups
                num_simulations
                ([], \<lparr>good_trade_count = 0, bad_trade_count = 0, no_action_count = 0\<rparr>, pos)
                = Inr (results, t, pos')
              \<and> good_trade_count t + bad_trade_count t = 0)
           \<and> calculate_threshold_crossing_cond draws daily_groups multiplier num_simulations pos
               = Inl ZeroDivisionError)
       \<and> ((\<forall>day \<in> set (map snd daily_groups). length day < 2) \<longrightarrow>
            calculate_threshold_crossing_cond draws daily_groups multiplier num_simulations pos
              = Inl ZeroDivisionError)
       \<and> ((\<forall>day \<in> set (eligible daily_groups).
              \<forall>p. Close (day ! drawn draws p day) > Close (day ! 0)) \<longrightarrow>
            calculate_threshold_crossing_cond draws daily_groups multiplier num_simulations pos
              = Inl ZeroDivisionError)"
proof (intro conjI impI)
  assume z: "outcome_total Good draws multiplier (np_std (all_prices daily_groups)) daily_groups
               pos num_simulations
             + outcome_total Bad draws multiplier (np_std (all_prices daily_groups))
                 daily_groups pos num_simulations = 0"
  then show "\<exists>results t pos'.
              simulate_cond draws multiplier (np_std (all_prices daily_groups)) daily_groups
                num_simulations
                ([], \<lparr>good_trade_count = 0, bad_trade_count = 0, no_action_count = 0\<rparr>, pos)
                = Inr (results, t, pos')
              \<and> good_trade_count t + bad_trade_count t = 0"
    by (simp add: simulate_cond_eq [OF assms])
  from z show "calculate_threshold_crossing_cond draws daily_groups multiplier num_simulations
                 pos = Inl ZeroDivisionError"
    by (simp add: calculate_threshold_crossing_cond_eq [OF assms])
next
  assume "\<forall>day \<in> set (map snd daily_groups). length day < 2"
  then have "eligible daily_groups = []"
    by (auto simp: eligible_def filter_empty_conv)
  then have "\<forall>day \<in> set (eligible daily_groups).
               \<forall>p. Close (day ! drawn draws p day) > Close (day ! 0)"
    by simp
  from outcome_total_all_Skipped [OF this]
  show "calculate_threshold_crossing_cond draws daily_groups multiplier num_simulations pos
          = Inl ZeroDivisionError"
    by (simp add: calculate_threshold_crossing_cond_eq [OF assms])
next
  assume "\<forall>day \<in> set (eligible daily_groups).
            \<forall>p. Close (day ! drawn draws p day) > Close (day ! 0)"
  from outcome_total_all_Skipped [OF this]
  show "calculate_threshold_crossing_cond draws daily_groups multiplier num_simulations pos
          = Inl ZeroDivisionError"
    by (simp add: calculate_threshold_crossing_cond_eq [OF assms])
qed

lemma lone_groups_eq: "lone_groups = [(1, [add_Date (example_bar 1 0 10)])]"
  by (simp add: lone_groups_def group_by_trading_day_def lone_series_def add_Date_def
        example_bar_def Let_def)

theorem final_division_unguarded_witness:
  "calculate_threshold_crossing_cond zero_draws lone_groups 1 100 0 = Inl ZeroDivisionError
   \<and> calculate_threshold_crossing_cond one_draws high_groups 1 100 0 = Inl ZeroDivisionError"
proof -
  have l1: "lone_groups \<noteq> []" and l2: "\<forall>day \<in> set (map snd lone_groups). length day < 2"
    by (simp_all add: lone_groups_eq)
  have h1: "high_groups \<noteq> []" by (simp add: high_groups_eq)
  have h2: "\<forall>day \<in> set (eligible high_groups).
              \<forall>p. Close (day ! drawn one_draws p day) > Close (day ! 0)"
    by (simp add: high_groups_eq eligible_def drawn_def one_draws_def add_Date_def
          example_bar_def)
  from final_division_unguarded [OF l1, of zero_draws 1 0 100] l2
  have "calculate_threshold_crossing_cond zero_draws lone_groups 1 100 0 = Inl ZeroDivisionError"
    by blast
  moreover from final_division_unguarded [OF h1, of one_draws 1 0 100] h2
  have "calculate_threshold_crossing_cond one_draws high_groups 1 100 0 = Inl ZeroDivisionError"
    by blast
  ultimately show ?thesis by simp
qed

section \<open>Monotonicity in the multiplier\<close>

lemma np_std_nonneg: "np_std xs = Some sd \<Longrightarrow> 0 \<le> sd"
  by (cases "xs = []")
     (auto simp: np_std_def np_mean_def intro!: divide_nonneg_nonneg sum_list_nonneg)

lemma spec_crossed_antimono:
  assumes "m1 \<le> m2" and "\<forall>sd. osd = Some sd \<longrightarrow> 0 \<le> sd"
    and "spec_crossed day r m2 osd"
  shows "spec_crossed day r m1 osd"
proof (cases osd)
  case None
  with assms(3) show ?thesis by (simp add: spec_crossed_def)
next
  case (Some sd)
  with assms(2) have "0 \<le> sd" by simp
  with assms(1) have "m1 * sd \<le> m2 * sd" by (rule mult_right_mono)
  from assms(3) Some obtain i where i: "i \<in> {r + 1 ..< length day}"
    and "Close (day ! i) > Close (day ! r) + m2 * sd"
    by (auto simp: spec_crossed_def)
  with \<open>m1 * sd \<le> m2 * sd\<close> have "Close (day ! i) > Close (day ! r) + m1 * sd"
    by linarith
  with i Some show ?thesis
    unfolding spec_crossed_def by auto
qed

lemma length_filter_mono:
  assumes "\<And>x. x \<in> set xs \<Longrightarrow> P x \<Longrightarrow> Q x"
  shows "length (filter P xs) \<le> length (filter Q xs)"
  using assms by (induction xs) auto

lemma crossed_count_antimono:
  assumes "m1 \<le> m2" and "\<forall>sd. osd = Some sd \<longrightarrow> 0 \<le> sd"
  shows "crossed_count draws m2 osd groups pos \<le> crossed_count draws m1 osd groups pos"
  unfolding crossed_count_def
  by (rule length_filter_mono) (auto intro: spec_crossed_antimono [OF assms])

lemma run_percentage_antimono:
  assumes "m1 \<le> m2" and "\<forall>sd. osd = Some sd \<longrightarrow> 0 \<le> sd"
  shows "run_percentage draws m2 osd groups pos \<le> run_percentage draws m1 osd groups pos"
  using crossed_count_antimono [OF assms, of draws groups pos]
  by (simp add: run_percentage_def divide_right_mono)

lemma np_mean_mono:
  assumes "\<And>x. x \<in> set xs \<Longrightarrow> f x \<le> g x" and "xs \<noteq> []"
  shows "\<exists>a b. np_mean (map f xs) = Some a \<and> np_mean (map g xs) = Some b \<and> a \<le> b"
  using assms by (simp add: np_mean_def divide_right_mono sum_list_mono)

text \<open>
  C8. With the days, a dispersion that is not negative and the generator held fixed, a
  run with the larger multiplier yields a percentage that is not larger, and it leaves
  the generator at the same position. With the dispersion the script computes and at
  least one run, the mean estimate for the larger multiplier is not larger either.
\<close>

theorem crossing_percentage_antimono:
  assumes "m1 \<le> m2" and "daily_groups \<noteq> []"
  shows "((\<forall>sd. dispersion = Some sd \<longrightarrow> 0 \<le> sd) \<longrightarrow>
           (\<exists>p1 p2 pos'.
              run_once draws m1 dispersion daily_groups pos = Inr (p1, pos')
              \<and> run_once draws m2 dispersion daily_groups pos = Inr (p2, pos')
              \<and> p2 \<le> p1))
       \<and> (0 < num_simulations \<longrightarrow>
           (\<exists>e1 e2 sd pos'.
              calculate_threshold_crossing draws daily_groups m1 num_simulations pos
                = Inr ((Some e1, sd), pos')
              \<and> calculate_threshold_crossing draws daily_groups m2 num_simulations pos
                = Inr ((Some e2, sd), pos')
              \<and> e2 \<le> e1))"
proof (intro conjI impI)
  assume "\<forall>sd. dispersion = Some sd \<longrightarrow> 0 \<le> sd"
  from run_percentage_antimono [OF assms(1) this, of draws daily_groups pos]
  show "\<exists>p1 p2 pos'.
              run_once draws m1 dispersion daily_groups pos = Inr (p1, pos')
              \<and> run_once draws m2 dispersion daily_groups pos = Inr (p2, pos')
              \<and> p2 \<le> p1"
    by (simp add: run_once_eq assms(2))
next
  assume n: "0 < num_simulations"
  let ?sd = "np_std (all_prices daily_groups)"
  have nonneg: "\<forall>sd. ?sd = Some sd \<longrightarrow> 0 \<le> sd"
    by (auto dest: np_std_nonneg)
  from n have "[0 ..< num_simulations] \<noteq> []" by simp
  from np_mean_mono [of "[0 ..< num_simulations]"
      "\<lambda>s. run_percentage draws m2 ?sd daily_groups (run_start daily_groups pos s)"
      "\<lambda>s. run_percentage draws m1 ?sd daily_groups (run_start daily_groups pos s)",
      OF run_percentage_antimono [OF assms(1) nonneg] this]
  show "\<exists>e1 e2 sd pos'.
              calculate_threshold_crossing draws daily_groups m1 num_simulations pos
                = Inr ((Some e1, sd), pos')
              \<and> calculate_threshold_crossing draws daily_groups m2 num_simulations pos
                = Inr ((Some e2, sd), pos')
              \<and> e2 \<le> e1"
    unfolding calculate_threshold_crossing_eq [OF assms(2)] by auto
qed

lemma spec_crossed_code:
  "r < length day \<Longrightarrow> spec_crossed day r m osd \<longleftrightarrow> crossed day r m osd = Inr True"
  by (simp add: crossed_in_range)

lemma mixed_crossed_count_3: "crossed_count zero_draws 3 (Some 1) mixed_groups pos = 0"
  by (simp add: crossed_count_def trials_def mixed_eligible drawn_def zero_draws_def
        spec_crossed_code)
     (simp add: crossed_def iloc_def exceeds_def add_Date_def example_bar_def)

theorem crossing_percentage_antimono_witness:
  "run_once zero_draws 1 (Some 1) mixed_groups 0 = Inr (50, 1)
   \<and> run_once zero_draws 3 (Some 1) mixed_groups 0 = Inr (0, 1)
   \<and> (\<exists>e1 e2 sd pos'.
        calculate_threshold_crossing zero_draws mixed_groups 1 2 0 = Inr ((Some e1, sd), pos')
        \<and> calculate_threshold_crossing zero_draws mixed_groups 3 2 0 = Inr ((Some e2, sd), pos')
        \<and> e2 \<le> e1)"
proof -
  have le: "(1::real) \<le> 3" by simp
  have r3: "run_once zero_draws 3 (Some 1) mixed_groups 0 = Inr (0, 1)"
    by (simp add: run_once_eq run_percentage_def mixed_crossed_count_3 mixed_groups_ne
          mixed_eligible)
  have n: "(0::nat) < 2" by simp
  from crossing_percentage_antimono [OF le mixed_groups_ne, of "Some 1" zero_draws 0 2] n
  have "\<exists>e1 e2 sd pos'.
        calculate_threshold_crossing zero_draws mixed_groups 1 2 0 = Inr ((Some e1, sd), pos')
        \<and> calculate_threshold_crossing zero_draws mixed_groups 3 2 0 = Inr ((Some e2, sd), pos')
        \<and> e2 \<le> e1"
    by blast
  with mixed_run_once r3 show ?thesis by blast
qed

section \<open>The partition into days\<close>

lemma concat_filters_sorted:
  fixes f :: "'a \<Rightarrow> 'k::linorder"
  assumes "sorted (map f xs)" and "sorted ks" and "distinct ks" and "f ` set xs \<subseteq> set ks"
  shows "concat (map (\<lambda>k. filter (\<lambda>y. f y = k) xs) ks) = xs"
  using assms(1,4)
proof (induction xs)
  case Nil
  then show ?case by simp
next
  case (Cons x xs)
  from Cons.prems have later: "\<forall>y \<in> set xs. f x \<le> f y" and srt: "sorted (map f xs)"
    and sub: "f ` set xs \<subseteq> set ks" and "f x \<in> set ks"
    by auto
  then obtain ks1 ks2 where ks: "ks = ks1 @ f x # ks2"
    by (auto dest: split_list)
  from assms(2,3) ks have before: "\<forall>k \<in> set ks1. k < f x" and after: "f x \<notin> set ks2"
    by (auto simp: sorted_append less_le)
  have e1: "filter (\<lambda>y. f y = k) (x # xs) = []" "filter (\<lambda>y. f y = k) xs = []"
    if "k \<in> set ks1" for k
    using that before later by (fastforce simp: filter_empty_conv)+
  have e2: "filter (\<lambda>y. f y = k) (x # xs) = filter (\<lambda>y. f y = k) xs"
    if "k \<in> set ks2" for k
    using that after by auto
  have m1: "map (\<lambda>k. filter (\<lambda>y. f y = k) (x # xs)) ks1 = map (\<lambda>k. []) ks1"
    and m1': "map (\<lambda>k. filter (\<lambda>y. f y = k) xs) ks1 = map (\<lambda>k. []) ks1"
    by (rule map_cong [OF refl], rule e1(1), assumption)
       (rule map_cong [OF refl], rule e1(2), assumption)
  have m2: "map (\<lambda>k. filter (\<lambda>y. f y = k) (x # xs)) ks2
              = map (\<lambda>k. filter (\<lambda>y. f y = k) xs) ks2"
    by (rule map_cong [OF refl]) (rule e2)
  have c0: "concat (map (\<lambda>k. []) ks1) = ([] :: 'a list)"
    by (induction ks1) simp_all
  from Cons.IH [OF srt sub]
  have "filter (\<lambda>y. f y = f x) xs @ concat (map (\<lambda>k. filter (\<lambda>y. f y = k) xs) ks2) = xs"
    unfolding ks by (simp add: m1' c0 del: filter.simps)
  then show ?case
    unfolding ks by (simp add: m1 m2 c0 del: filter.simps) simp
qed

lemma ts_sorted_dates:
  assumes "sorted_wrt ts_less ts"
  shows "sorted (map date ts)"
proof -
  have "sorted_wrt (\<lambda>a b. date a \<le> date b) ts"
    using assms by (rule sorted_wrt_mono_rel [rotated]) (auto simp: ts_less_def)
  then show ?thesis by (simp add: sorted_wrt_map)
qed

lemma truncate_add_Date: "bar.truncate (add_Date b) = b"
  by (simp add: bar.truncate_def add_Date_def)

lemma timestamp_add_Date: "timestamp (add_Date b) = timestamp b"
  by (simp add: add_Date_def)

lemma Open_add_Date: "Open (add_Date b) = Open b"
  by (simp add: add_Date_def)

lemma Close_add_Date: "Close (add_Date b) = Close b"
  by (simp add: add_Date_def)

lemma Date_add_Date: "Date (add_Date b) = date (timestamp b)"
  by (simp add: add_Date_def)

lemma group_by_trading_day_eq:
  "group_by_trading_day data =
     (map add_Date data,
      map (\<lambda>d. (d, filter (\<lambda>b. date (timestamp b) = d) (map add_Date data)))
        (sort (remdups (map (\<lambda>b. date (timestamp b)) data))))"
  by (simp add: group_by_trading_day_def Let_def comp_def timestamp_add_Date)

text \<open>
  C6. For a series whose time stamps increase strictly, the days of the dictionary,
  concatenated in the order of the dictionary (ascending dates), are the table as
  \<open>group_by_trading_day\<close> left it, and without the added column they are the series
  that was passed in. Every bar is in exactly one day; a day is not empty and holds the
  bars of its date in the order of the series; the dates of the dictionary ascend
  without repetition.
\<close>

theorem partition_is_lossless:
  assumes "sorted_wrt ts_less (map timestamp data)"
  shows "case group_by_trading_day data of (data', daily_groups) \<Rightarrow>
     concat (map snd daily_groups) = data'
     \<and> map bar.truncate (concat (map snd daily_groups)) = data
     \<and> (\<forall>b \<in> set data'. \<exists>!g. g \<in> set daily_groups \<and> b \<in> set (snd g))
     \<and> (\<forall>(d, day) \<in> set daily_groups. day \<noteq> [] \<and> day = filter (\<lambda>b. Date b = d) data')
     \<and> sorted (map fst daily_groups) \<and> distinct (map fst daily_groups)"
proof -
  let ?f = "\<lambda>b::dated_bar. date (timestamp b)"
  let ?data' = "map add_Date data"
  let ?keys = "sort (remdups (map (\<lambda>b. date (timestamp b)) data))"
  let ?groups = "map (\<lambda>d. (d, filter (\<lambda>b. ?f b = d) ?data')) ?keys"
  have keys: "sorted ?keys" "distinct ?keys" "set ?keys = ?f ` set ?data'"
    by (simp_all add: image_image timestamp_add_Date)
  have "sorted (map date (map timestamp data))"
    using assms by (rule ts_sorted_dates)
  then have srt: "sorted (map ?f ?data')"
    by (simp add: comp_def timestamp_add_Date)
  have Date_f: "Date b = ?f b" if "b \<in> set ?data'" for b
    using that by (auto simp: Date_add_Date timestamp_add_Date)
  have 1: "concat (map snd ?groups) = ?data'"
    using concat_filters_sorted [OF srt keys(1,2)] keys(3) by (simp add: comp_def)
  have 2: "map bar.truncate (concat (map snd ?groups)) = data"
    unfolding 1 by (simp add: comp_def truncate_add_Date)
  have 3: "\<exists>!g. g \<in> set ?groups \<and> b \<in> set (snd g)" if b: "b \<in> set ?data'" for b
  proof
    from b have "?f b \<in> set ?keys" unfolding keys(3) by (rule imageI)
    with b show "(?f b, filter (\<lambda>c. ?f c = ?f b) ?data') \<in> set ?groups
        \<and> b \<in> set (snd (?f b, filter (\<lambda>c. ?f c = ?f b) ?data'))"
      by (simp add: image_iff)
  next
    fix g assume "g \<in> set ?groups \<and> b \<in> set (snd g)"
    then show "g = (?f b, filter (\<lambda>c. ?f c = ?f b) ?data')" by auto
  qed
  have 4: "\<forall>(d, day) \<in> set ?groups. day \<noteq> [] \<and> day = filter (\<lambda>b. Date b = d) ?data'"
  proof -
    have "filter (\<lambda>b. ?f b = d) ?data' = filter (\<lambda>b. Date b = d) ?data'" for d
      by (rule filter_cong) (simp_all add: Date_f)
    moreover have "filter (\<lambda>b. ?f b = d) ?data' \<noteq> []" if "d \<in> set ?keys" for d
      using that unfolding keys(3) by (auto simp: filter_empty_conv)
    ultimately show ?thesis by auto
  qed
  have 5: "sorted (map fst ?groups)" "distinct (map fst ?groups)"
    using keys(1,2) by (simp_all add: comp_def)
  show ?thesis
    unfolding group_by_trading_day_eq prod.case
    by (intro conjI) (rule 1, rule 2, rule ballI, erule 3, rule 4, rule 5(1), rule 5(2))
qed


theorem partition_is_lossless_witness:
  "sorted_wrt ts_less (map timestamp mixed_series)
   \<and> concat (map snd mixed_groups) = fst (group_by_trading_day mixed_series)
   \<and> map bar.truncate (concat (map snd mixed_groups)) = mixed_series
   \<and> map fst mixed_groups = [1, 2]"
proof -
  have s: "sorted_wrt ts_less (map timestamp mixed_series)"
    by (simp add: mixed_series_def example_bar_def ts_less_def)
  from partition_is_lossless [OF s]
  have "concat (map snd mixed_groups) = fst (group_by_trading_day mixed_series)
        \<and> map bar.truncate (concat (map snd mixed_groups)) = mixed_series"
    unfolding case_prod_unfold mixed_groups_def by blast
  moreover have "map fst mixed_groups = [1, 2]" by (simp add: mixed_groups_eq)
  ultimately show ?thesis using s by blast
qed

section \<open>The added column\<close>

text \<open>
  C10. \<open>group_by_trading_day\<close> leaves the table it was given with one more column,
  \<open>Date\<close>, which holds the date of each row's time stamp; the index and the columns
  \<open>Open\<close> and \<open>Close\<close> are as before, row by row, and dropping the new column gives
  the table that was passed in. The days of the dictionary are made of rows of the
  table with the new column.
\<close>

theorem partition_adds_Date_column:
  "case group_by_trading_day data of (data', daily_groups) \<Rightarrow>
     map timestamp data' = map timestamp data
     \<and> map Open data' = map Open data
     \<and> map Close data' = map Close data
     \<and> map Date data' = map (\<lambda>b. date (timestamp b)) data
     \<and> map bar.truncate data' = data
     \<and> (\<forall>(d, day) \<in> set daily_groups. set day \<subseteq> set data')"
  by (auto simp: group_by_trading_day_eq comp_def truncate_add_Date timestamp_add_Date
        Open_add_Date Close_add_Date Date_add_Date)

theorem partition_adds_Date_column_witness:
  "map Date (fst (group_by_trading_day mixed_series)) = [1, 1, 1, 2]
   \<and> map bar.truncate (fst (group_by_trading_day mixed_series)) = mixed_series"
proof -
  from partition_adds_Date_column [of mixed_series]
  have "map Date (fst (group_by_trading_day mixed_series))
          = map (\<lambda>b. date (timestamp b)) mixed_series"
    and "map bar.truncate (fst (group_by_trading_day mixed_series)) = mixed_series"
    unfolding case_prod_unfold by blast+
  moreover have "map (\<lambda>b. date (timestamp b)) mixed_series = [1, 1, 1, 2]"
    by (simp add: mixed_series_def example_bar_def)
  ultimately show ?thesis by simp
qed

end
